theory Spec2Isabelle
  imports Main "HOL-Library.Char_ord" "HOL-Library.List_Lexorder" "HOL-Library.Product_Lexorder"
    "HOL-Library.Option_ord"
begin

section \<open>Values held in the object stores\<close>

text \<open>
  The records of Career JAM are plain JavaScript objects whose properties hold
  \<^verbatim>\<open>null\<close>, booleans, numbers, strings or nested objects. A property that is
  absent and a property whose value is \<^verbatim>\<open>undefined\<close> read the same everywhere in
  \<^verbatim>\<open>functions.js\<close> (and in the key-path evaluation of IndexedDB), so both are
  represented by absence: reading gives \<open>None\<close>. Numbers are the integers (ids,
  salaries, percentages); \<^verbatim>\<open>NaN\<close>, dates and arrays as property values are not part
  of the model.
\<close>

datatype jsval =
    JNull
  | JBool bool
  | JNum int
  | JStr string
  | JObj "(string \<times> jsval) list"

text \<open>Reading \<^verbatim>\<open>v.f\<close> for a value that is not \<^verbatim>\<open>null\<close>: a primitive has no own property.\<close>

fun get_prop :: "jsval \<Rightarrow> string \<Rightarrow> jsval option" where
  "get_prop (JObj fs) f = map_of fs f"
| "get_prop _ f = None"

text \<open>The assignment \<^verbatim>\<open>v.f = x\<close>; assigning \<^verbatim>\<open>undefined\<close> leaves the property reading \<^verbatim>\<open>undefined\<close>.
  An assignment to a property of a primitive is ignored.\<close>

fun upd_fields :: "string \<Rightarrow> jsval \<Rightarrow> (string \<times> jsval) list \<Rightarrow> (string \<times> jsval) list" where
  "upd_fields f x [] = [(f, x)]"
| "upd_fields f x ((g, y) # fs) = (if g = f then (f, x) # fs else (g, y) # upd_fields f x fs)"

fun del_fields :: "string \<Rightarrow> (string \<times> jsval) list \<Rightarrow> (string \<times> jsval) list" where
  "del_fields f [] = []"
| "del_fields f ((g, y) # fs) = (if g = f then del_fields f fs else (g, y) # del_fields f fs)"

fun delete_prop :: "jsval \<Rightarrow> string \<Rightarrow> jsval" where
  "delete_prop (JObj fs) f = JObj (del_fields f fs)"
| "delete_prop v f = v"

fun set_prop :: "jsval \<Rightarrow> string \<Rightarrow> jsval option \<Rightarrow> jsval" where
  "set_prop (JObj fs) f (Some x) = JObj (upd_fields f x fs)"
| "set_prop (JObj fs) f None = JObj (del_fields f fs)"
| "set_prop v f x = v"

text \<open>Truthiness, as tested by \<^verbatim>\<open>if (job)\<close>; \<open>None\<close> is \<^verbatim>\<open>undefined\<close>.\<close>

fun truthy :: "jsval option \<Rightarrow> bool" where
  "truthy None = False"
| "truthy (Some JNull) = False"
| "truthy (Some (JBool b)) = b"
| "truthy (Some (JNum n)) = (n \<noteq> 0)"
| "truthy (Some (JStr s)) = (s \<noteq> [])"
| "truthy (Some (JObj fs)) = True"

section \<open>IndexedDB keys, object stores and indexes\<close>

text \<open>
  A value is a valid key when it is a number or a string; \<^verbatim>\<open>null\<close>, \<^verbatim>\<open>undefined\<close>,
  booleans and objects are not. Keys are ordered: every number is below every string,
  numbers by value, strings by code unit.
\<close>

datatype key = KNum int | KStr string

fun key_of :: "jsval option \<Rightarrow> key option" where
  "key_of (Some (JNum n)) = Some (KNum n)"
| "key_of (Some (JStr s)) = Some (KStr s)"
| "key_of _ = None"

fun key_le :: "key \<Rightarrow> key \<Rightarrow> bool" where
  "key_le (KNum a) (KNum b) = (a \<le> b)"
| "key_le (KNum a) (KStr t) = True"
| "key_le (KStr s) (KNum b) = False"
| "key_le (KStr s) (KStr t) = (s \<le> t)"

instantiation key :: linorder
begin

definition less_eq_key :: "key \<Rightarrow> key \<Rightarrow> bool" where
  "less_eq_key a b = key_le a b"

definition less_key :: "key \<Rightarrow> key \<Rightarrow> bool" where
  "less_key a b = (key_le a b \<and> \<not> key_le b a)"

instance
proof
  fix x y z :: key
  show "(x < y) = (x \<le> y \<and> \<not> y \<le> x)"
    by (simp add: less_key_def less_eq_key_def)
  show "x \<le> x"
    by (cases x) (simp_all add: less_eq_key_def)
  show "x \<le> y \<Longrightarrow> y \<le> z \<Longrightarrow> x \<le> z"
    by (cases x; cases y; cases z) (auto simp: less_eq_key_def)
  show "x \<le> y \<Longrightarrow> y \<le> x \<Longrightarrow> x = y"
    by (cases x; cases y) (auto simp: less_eq_key_def)
  show "x \<le> y \<or> y \<le> x"
    by (cases x; cases y) (auto simp: less_eq_key_def)
qed

end

text \<open>
  An object store keeps its records and the current number of its key generator. All
  four stores are created with \<^verbatim>\<open>{ keyPath: 'id', autoIncrement: true }\<close>, so the
  primary key of a record is read from its \<^verbatim>\<open>id\<close> property. The list is in no
  particular order; every read sorts by key.
\<close>

record store =
  records :: "jsval list"
  keygen :: int

datatype store_name = Companies | Profiles | People | Jobs

type_synonym db = "store_name \<Rightarrow> store"

definition pkey :: "jsval \<Rightarrow> key option" where
  "pkey v = key_of (get_prop v ''id'')"

text \<open>The index named \<open>f\<close> has key path \<open>f\<close>: a record whose \<open>f\<close> is not a valid key has
  no entry in it.\<close>

definition ikey :: "string \<Rightarrow> jsval \<Rightarrow> key option" where
  "ikey f v = key_of (get_prop v f)"

fun index_names :: "store_name \<Rightarrow> string list" where
  "index_names Companies = [''name'']"
| "index_names Profiles = []"
| "index_names People = []"
| "index_names Jobs = [''status'', ''company_id'', ''profile_id'', ''created_at'', ''salary'',
     ''match_percentage'', ''title'']"

fun unique_index_names :: "store_name \<Rightarrow> string list" where
  "unique_index_names Companies = [''name'']"
| "unique_index_names n = []"

datatype error = DataError | ConstraintError | NotFoundError | InvalidStateError | AbortError
  | TypeError

type_synonym 'a result = "error + 'a"


section \<open>Requests\<close>

text \<open>
  A request either throws when it is placed (the exception escapes the call), or is
  placed and later fires an error event, or fires a success event with its result.
\<close>

datatype 'a request = Threw error | Failed error | Succeeded 'a

definition lookup :: "store \<Rightarrow> key \<Rightarrow> jsval option" where
  "lookup s k = find (\<lambda>v. pkey v = Some k) (records s)"

definition has_key :: "store \<Rightarrow> key \<Rightarrow> bool" where
  "has_key s k = list_ex (\<lambda>v. pkey v = Some k) (records s)"

text \<open>A unique index refuses a record whose index key is already held by a record with
  another primary key.\<close>

definition unique_violation :: "store_name \<Rightarrow> store \<Rightarrow> key \<Rightarrow> jsval \<Rightarrow> bool" where
  "unique_violation n s k v =
     list_ex (\<lambda>f. ikey f v \<noteq> None \<and>
                list_ex (\<lambda>w. pkey w \<noteq> Some k \<and> ikey f w = ikey f v) (records s))
       (unique_index_names n)"

text \<open>An explicit numeric key at or above the generator's current number moves the
  generator past it.\<close>

fun bump_keygen :: "key \<Rightarrow> store \<Rightarrow> store" where
  "bump_keygen (KNum i) s = (if keygen s \<le> i then s\<lparr>keygen := i + 1\<rparr> else s)"
| "bump_keygen (KStr t) s = s"

definition commit_record :: "bool \<Rightarrow> store_name \<Rightarrow> key \<Rightarrow> jsval \<Rightarrow> store \<Rightarrow> (key \<times> store) request" where
  "commit_record no_overwrite n k v s =
     (if no_overwrite \<and> has_key s k then Failed ConstraintError
      else if unique_violation n s k v then Failed ConstraintError
      else Succeeded (k, s\<lparr>records :=
             (if has_key s k then map (\<lambda>w. if pkey w = Some k then v else w) (records s)
              else records s @ [v])\<rparr>))"

text \<open>
  \<^verbatim>\<open>store.add(item)\<close> (\<open>no_overwrite\<close>) and \<^verbatim>\<open>store.put(item)\<close> on a store with
  in-line keys and a key generator. An \<^verbatim>\<open>id\<close> that is present and not a valid key, or
  an item into which no key can be injected, throws \<^verbatim>\<open>DataError\<close>; an item without
  \<^verbatim>\<open>id\<close> receives the generator's current number.
\<close>

definition store_record :: "bool \<Rightarrow> store_name \<Rightarrow> jsval \<Rightarrow> store \<Rightarrow> (key \<times> store) request" where
  "store_record no_overwrite n item s =
     (case item of
        JObj fs \<Rightarrow>
          (case get_prop item ''id'' of
             None \<Rightarrow>
               commit_record no_overwrite n (KNum (keygen s))
                 (set_prop item ''id'' (Some (JNum (keygen s)))) (s\<lparr>keygen := keygen s + 1\<rparr>)
           | Some x \<Rightarrow>
               (case key_of (Some x) of
                  None \<Rightarrow> Threw DataError
                | Some k \<Rightarrow> commit_record no_overwrite n k item (bump_keygen k s)))
      | _ \<Rightarrow> Threw DataError)"

definition delete_record :: "key \<Rightarrow> store \<Rightarrow> store" where
  "delete_record k s = s\<lparr>records := filter (\<lambda>v. pkey v \<noteq> Some k) (records s)\<rparr>"

section \<open>The helper functions of the database module\<close>

text \<open>
  Each helper opens a transaction of its own for one request. A thrown exception inside
  the promise executor and an error event both reject the promise; a failed request
  aborts its transaction, so the database is as before. \<open>None\<close> as a result is
  \<^verbatim>\<open>undefined\<close>.
\<close>

definition getItem :: "store_name \<Rightarrow> jsval \<Rightarrow> db \<Rightarrow> jsval option result" where
  "getItem storeName key db =
     (case key_of (Some key) of
        None \<Rightarrow> Inl DataError
      | Some k \<Rightarrow> Inr (lookup (db storeName) k))"

definition addItem :: "store_name \<Rightarrow> jsval \<Rightarrow> db \<Rightarrow> key result \<times> db" where
  "addItem storeName item db =
     (case store_record True storeName item (db storeName) of
        Threw e \<Rightarrow> (Inl e, db)
      | Failed e \<Rightarrow> (Inl e, db)
      | Succeeded (k, s) \<Rightarrow> (Inr k, db(storeName := s)))"

definition updateItem :: "store_name \<Rightarrow> jsval \<Rightarrow> db \<Rightarrow> unit result \<times> db" where
  "updateItem storeName item db =
     (case store_record False storeName item (db storeName) of
        Threw e \<Rightarrow> (Inl e, db)
      | Failed e \<Rightarrow> (Inl e, db)
      | Succeeded (k, s) \<Rightarrow> (Inr (), db(storeName := s)))"

definition deleteItem :: "store_name \<Rightarrow> jsval \<Rightarrow> db \<Rightarrow> unit result \<times> db" where
  "deleteItem storeName key db =
     (case key_of (Some key) of
        None \<Rightarrow> (Inl DataError, db)
      | Some k \<Rightarrow> (Inr (), db(storeName := delete_record k (db storeName))))"

definition deleteCompany :: "jsval \<Rightarrow> db \<Rightarrow> unit result \<times> db" where
  "deleteCompany ident db = deleteItem Companies ident db"

definition deleteProfile :: "jsval \<Rightarrow> db \<Rightarrow> unit result \<times> db" where
  "deleteProfile ident db = deleteItem Profiles ident db"

definition deletePerson :: "jsval \<Rightarrow> db \<Rightarrow> unit result \<times> db" where
  "deletePerson ident db = deleteItem People ident db"

definition deleteJob :: "jsval \<Rightarrow> db \<Rightarrow> unit result \<times> db" where
  "deleteJob ident db = deleteItem Jobs ident db"


definition getJob :: "jsval \<Rightarrow> db \<Rightarrow> jsval option result" where
  "getJob ident db = getItem Jobs ident db"

definition updateJob :: "jsval \<Rightarrow> db \<Rightarrow> unit result \<times> db" where
  "updateJob job db = updateItem Jobs job db"

definition updatePersonNotes :: "jsval \<Rightarrow> jsval \<Rightarrow> db \<Rightarrow> unit result \<times> db" where
  "updatePersonNotes ident notes db =
     (case getItem People ident db of
        Inl e \<Rightarrow> (Inl e, db)
      | Inr person \<Rightarrow>
          (case person of
             Some p \<Rightarrow>
               (if truthy person then updateItem People (set_prop p ''notes'' (Some notes)) db
                else (Inr (), db))
           | None \<Rightarrow> (Inr (), db)))"

definition updateJobNotes :: "jsval \<Rightarrow> jsval \<Rightarrow> db \<Rightarrow> unit result \<times> db" where
  "updateJobNotes ident notes db =
     (case getItem Jobs ident db of
        Inl e \<Rightarrow> (Inl e, db)
      | Inr job \<Rightarrow>
          (case job of
             Some j \<Rightarrow>
               (if truthy job then updateItem Jobs (set_prop j ''notes'' (Some notes)) db
                else (Inr (), db))
           | None \<Rightarrow> (Inr (), db)))"

section \<open>Reading a store in key order\<close>

text \<open>
  \<^verbatim>\<open>store.getAll()\<close> lists the records by ascending primary key. An index lists the
  records that have a valid key at its key path, by ascending index key and, among equal
  index keys, by ascending primary key.
\<close>

definition getAll :: "store \<Rightarrow> jsval list" where
  "getAll s = sort_key pkey (records s)"

definition index_entries :: "string \<Rightarrow> store \<Rightarrow> jsval list" where
  "index_entries f s =
     sort_key (\<lambda>v. (ikey f v, pkey v)) (filter (\<lambda>v. ikey f v \<noteq> None) (records s))"

text \<open>
  The query of \<^verbatim>\<open>index.getAll(query)\<close> and \<^verbatim>\<open>index.count(query)\<close>: \<^verbatim>\<open>null\<close> is the
  unbounded range, a valid key is the range of that key only, anything else throws.
\<close>

fun key_range :: "jsval \<Rightarrow> key option result" where
  "key_range JNull = Inr None"
| "key_range v = (case key_of (Some v) of None \<Rightarrow> Inl DataError | Some k \<Rightarrow> Inr (Some k))"

fun in_range :: "key option \<Rightarrow> key option \<Rightarrow> bool" where
  "in_range None i = True"
| "in_range (Some k) i = (i = Some k)"

definition index_getAll :: "string \<Rightarrow> jsval \<Rightarrow> store \<Rightarrow> jsval list result" where
  "index_getAll f query s =
     (case key_range query of
        Inl e \<Rightarrow> Inl e
      | Inr r \<Rightarrow> Inr (filter (\<lambda>v. in_range r (ikey f v)) (index_entries f s)))"

definition getJobsByCompanyId :: "jsval \<Rightarrow> db \<Rightarrow> jsval list result" where
  "getJobsByCompanyId companyId db = index_getAll ''company_id'' companyId (db Jobs)"

definition getJobsByProfileId :: "jsval \<Rightarrow> db \<Rightarrow> jsval list result" where
  "getJobsByProfileId profileId db = index_getAll ''profile_id'' profileId (db Jobs)"

definition getJobCount :: "jsval \<Rightarrow> db \<Rightarrow> nat result" where
  "getJobCount status db =
     (case index_getAll ''status'' status (db Jobs) of
        Inl e \<Rightarrow> Inl e
      | Inr vs \<Rightarrow> Inr (length vs))"

section \<open>Paginated, filtered and sorted listing of jobs\<close>

text \<open>\<^verbatim>\<open>s.split(c)\<close> for a separator of one character.\<close>

fun split_on :: "char \<Rightarrow> string \<Rightarrow> string list" where
  "split_on c [] = [[]]"
| "split_on c (x # xs) =
     (if x = c then [] # split_on c xs
      else (case split_on c xs of
              [] \<Rightarrow> [[x]]
            | y # ys \<Rightarrow> (x # y) # ys))"

text \<open>
  The \<^verbatim>\<open>onsuccess\<close> handler of the cursor request, run over the records the cursor
  visits in turn: \<open>check\<close> is \<^verbatim>\<open>effectiveSortKey !== 'status'\<close>, \<open>skipped\<close> and
  \<open>results\<close> are the handler's two variables. The handler stops asking for the next
  record once the page is full.
\<close>

fun cursor_loop :: "bool \<Rightarrow> string \<Rightarrow> int \<Rightarrow> int \<Rightarrow> nat \<Rightarrow> jsval list \<Rightarrow> jsval list \<Rightarrow> jsval list" where
  "cursor_loop check status skipCount itemsPerPage skipped results [] = results"
| "cursor_loop check status skipCount itemsPerPage skipped results (v # vs) =
     (if check \<and> get_prop v ''status'' \<noteq> Some (JStr status)
      then cursor_loop check status skipCount itemsPerPage skipped results vs
      else if int skipped < skipCount
      then cursor_loop check status skipCount itemsPerPage (Suc skipped) results vs
      else if int (length results) < itemsPerPage
      then cursor_loop check status skipCount itemsPerPage skipped (results @ [v]) vs
      else results)"

text \<open>
  \<^verbatim>\<open>getPaginatedJobs(status, sortBy, page, itemsPerPage)\<close>. \<^verbatim>\<open>store.index\<close> throws
  \<^verbatim>\<open>NotFoundError\<close> for a name that is not an index of the jobs store. Direction
  \<^verbatim>\<open>'prev'\<close> visits the entries of the index in the reverse order.
\<close>

definition getPaginatedJobs :: "string \<Rightarrow> string \<Rightarrow> int \<Rightarrow> int \<Rightarrow> db \<Rightarrow> jsval list result" where
  "getPaginatedJobs status sortBy page itemsPerPage db =
     (case split_on CHR '' '' sortBy of
        [] \<Rightarrow> Inl NotFoundError
      | sortKey # rest \<Rightarrow>
          let sortOrder = (case rest of [] \<Rightarrow> None | o1 # _ \<Rightarrow> Some o1);
              effectiveSortKey = (if sortKey = ''company_name'' then ''company_id'' else sortKey)
          in if effectiveSortKey \<notin> set (index_names Jobs) then Inl NotFoundError
             else
               let skipCount = (page - 1) * itemsPerPage;
                   entries = index_entries effectiveSortKey (db Jobs);
                   ranged = (if effectiveSortKey = ''status''
                             then filter (\<lambda>v. ikey ''status'' v = Some (KStr status)) entries
                             else entries);
                   visited = (if sortOrder = Some ''DESC'' then rev ranged else ranged)
               in Inr (cursor_loop (effectiveSortKey \<noteq> ''status'') status skipCount
                         itemsPerPage 0 [] visited))"

section \<open>Application handlers that write jobs and profiles\<close>




text \<open>\<^verbatim>\<open>handleDeleteConfirmed\<close>, with the id and the type read from the dialog.\<close>

definition handleDeleteConfirmed :: "jsval \<Rightarrow> string \<Rightarrow> db \<Rightarrow> unit result \<times> db" where
  "handleDeleteConfirmed ident type db =
     (if type = ''job'' then deleteJob ident db
      else if type = ''profile'' then deleteProfile ident db
      else if type = ''person'' then deletePerson ident db
      else if type = ''company'' then deleteCompany ident db
      else (Inr (), db))"

text \<open>The click listener of \<^verbatim>\<open>profiles-table-body\<close> on a delete button: the loop over
  \<^verbatim>\<open>jobsToUpdate\<close>, then the listener. An exception leaves the loop at once.\<close>

fun unlink_jobs :: "jsval list \<Rightarrow> db \<Rightarrow> unit result \<times> db" where
  "unlink_jobs [] db = (Inr (), db)"
| "unlink_jobs (job # jobs) db =
     (let job1 = set_prop job ''profile_id'' (Some JNull);
          job2 = set_prop job1 ''match_percentage'' (Some JNull);
          job3 = set_prop job2 ''match_justification'' (Some JNull)
      in case updateJob job3 db of
           (Inl e, db') \<Rightarrow> (Inl e, db')
         | (Inr u, db') \<Rightarrow> unlink_jobs jobs db')"

definition profiles_table_body_click :: "jsval \<Rightarrow> db \<Rightarrow> unit result \<times> db" where
  "profiles_table_body_click profileId db =
     (case getJobsByProfileId profileId db of
        Inl e \<Rightarrow> (Inl e, db)
      | Inr jobsToUpdate \<Rightarrow>
          (case unlink_jobs jobsToUpdate db of
             (Inl e, db') \<Rightarrow> (Inl e, db')
           | (Inr u, db') \<Rightarrow> deleteProfile profileId db'))"

section \<open>Backup and restore\<close>

text \<open>
  The backup is the JSON text of an object with one array of records per store. The text
  is represented by the document it denotes: for each store the array, or \<open>None\<close> where
  the document has no (or a falsy) entry under the store's name. On the values of the
  model \<^verbatim>\<open>JSON.parse\<close> undoes \<^verbatim>\<open>JSON.stringify\<close>.
\<close>

type_synonym document = "store_name \<Rightarrow> jsval list option"


text \<open>
  \<^verbatim>\<open>importDB\<close> places all its requests in one transaction over the four stores. The
  transaction is \<open>Active\<close> until a request fires an error event. No handler in
  \<^verbatim>\<open>importDB\<close> calls \<^verbatim>\<open>preventDefault\<close>, so that event aborts the transaction: the
  code resumed by the handler still runs with the transaction active (\<open>ErrorDispatch\<close>) and
  may place one more request, which the abort then fails with \<^verbatim>\<open>AbortError\<close>; after that
  the transaction is \<open>Finished\<close> and \<^verbatim>\<open>transaction.objectStore\<close> throws
  \<^verbatim>\<open>InvalidStateError\<close>. An aborted transaction leaves the database as it was before
  \<^verbatim>\<open>importDB\<close>; a transaction that is still active when \<^verbatim>\<open>importDB\<close> returns or throws
  commits what it has written.
\<close>

datatype txn_state = Active | ErrorDispatch | Finished

record txn =
  view :: db
  tstate :: txn_state

definition clear_store :: "store \<Rightarrow> store" where
  "clear_store s = s\<lparr>records := []\<rparr>"

text \<open>The loop over the items of one store; \<open>Some e\<close> is the exception that leaves
  \<^verbatim>\<open>importDB\<close>.\<close>

fun import_items :: "store_name \<Rightarrow> jsval list \<Rightarrow> txn \<Rightarrow> error option \<times> txn" where
  "import_items storeName [] t = (None, t)"
| "import_items storeName (item # items) t =
     (if item = JNull then (Some TypeError, t)
      else
        let item1 = (if get_prop item ''id'' = Some JNull \<or> get_prop item ''id'' = None
                     then delete_prop item ''id'' else item)
        in case tstate t of
             Finished \<Rightarrow> (Some InvalidStateError, t)
           | ErrorDispatch \<Rightarrow>
               (case store_record True storeName item1 (view t storeName) of
                  Threw e \<Rightarrow> (Some e, t)
                | Failed e \<Rightarrow> import_items storeName items (t\<lparr>tstate := Finished\<rparr>)
                | Succeeded r \<Rightarrow> import_items storeName items (t\<lparr>tstate := Finished\<rparr>))
           | Active \<Rightarrow>
               (case store_record True storeName item1 (view t storeName) of
                  Threw e \<Rightarrow> (Some e, t)
                | Failed e \<Rightarrow> import_items storeName items (t\<lparr>tstate := ErrorDispatch\<rparr>)
                | Succeeded (k, s) \<Rightarrow>
                    import_items storeName items (t\<lparr>view := (view t)(storeName := s)\<rparr>)))"

fun import_stores :: "store_name list \<Rightarrow> document \<Rightarrow> txn \<Rightarrow> error option \<times> txn" where
  "import_stores [] data t = (None, t)"
| "import_stores (storeName # stores) data t =
     (case tstate t of
        Finished \<Rightarrow> (Some InvalidStateError, t)
      | ErrorDispatch \<Rightarrow> (Some AbortError, t\<lparr>tstate := Finished\<rparr>)
      | Active \<Rightarrow>
          (let t1 = t\<lparr>view := (view t)(storeName := clear_store (view t storeName))\<rparr>
           in case data storeName of
                None \<Rightarrow> import_stores stores data t1
              | Some items \<Rightarrow>
                  (case import_items storeName items t1 of
                     (Some e, t2) \<Rightarrow> (Some e, t2)
                   | (None, t2) \<Rightarrow> import_stores stores data t2)))"

definition importDB :: "document \<Rightarrow> db \<Rightarrow> unit result \<times> db" where
  "importDB jsonString db =
     (case import_stores [Companies, Profiles, People, Jobs] jsonString
             \<lparr>view = db, tstate = Active\<rparr> of
        (r, t) \<Rightarrow>
          ((case r of None \<Rightarrow> Inr () | Some e \<Rightarrow> Inl e),
           (if tstate t = Active then view t else db)))"

section \<open>Sample data\<close>

definition empty_store :: store where
  "empty_store = \<lparr>records = [], keygen = 1\<rparr>"

definition acme_job :: jsval where
  "acme_job = JObj [(''id'', JNum 1), (''title'', JStr ''Engineer''),
     (''company_id'', JNum 1), (''status'', JStr ''Bookmarked''), (''salary'', JNum 12),
     (''created_at'', JStr ''2024-01-01''), (''profile_id'', JNum 1),
     (''match_percentage'', JNum 80), (''match_justification'', JStr ''good''),
     (''notes'', JStr '''')]"

definition acme_db :: db where
  "acme_db = (\<lambda>n. empty_store)
     (Companies := \<lparr>records = [JObj [(''id'', JNum 1), (''name'', JStr ''Acme'')]], keygen = 2\<rparr>,
      Profiles := \<lparr>records = [JObj [(''id'', JNum 1), (''name'', JStr ''Resume A''),
                     (''content'', JStr ''...'')]], keygen = 2\<rparr>,
      Jobs := \<lparr>records = [acme_job], keygen = 2\<rparr>)"


definition job_a :: jsval where
  "job_a = JObj [(''id'', JNum 1), (''title'', JStr ''Engineer''), (''status'', JStr ''Bookmarked''),
     (''salary'', JNum 12), (''created_at'', JStr ''2024-01''), (''match_percentage'', JNull)]"

definition job_b :: jsval where
  "job_b = JObj [(''id'', JNum 2), (''title'', JStr ''Analyst''), (''status'', JStr ''Bookmarked''),
     (''salary'', JNull), (''created_at'', JStr ''2024-02''), (''match_percentage'', JNull)]"

definition job_c :: jsval where
  "job_c = JObj [(''id'', JNum 3), (''title'', JStr ''Writer''), (''status'', JStr ''Bookmarked''),
     (''salary'', JNum 9), (''created_at'', JStr ''2024-03''), (''match_percentage'', JNull)]"

definition board_db :: db where
  "board_db = (\<lambda>n. empty_store)(Jobs := \<lparr>records = [job_a, job_b, job_c], keygen = 4\<rparr>)"

section \<open>Notions used in the statements about the listing\<close>

text \<open>The index that \<^verbatim>\<open>getPaginatedJobs\<close> opens for a sort key, and the records its
  cursor would visit if it ran to the end.\<close>

definition effective_key :: "string \<Rightarrow> string" where
  "effective_key sortKey = (if sortKey = ''company_name'' then ''company_id'' else sortKey)"

text \<open>The jobs of a status that have an entry in the index \<open>f\<close>, in the order of the
  index.\<close>

definition matching :: "string \<Rightarrow> string \<Rightarrow> db \<Rightarrow> jsval list" where
  "matching status f db =
     filter (\<lambda>v. get_prop v ''status'' = Some (JStr status)) (index_entries f (db Jobs))"

definition visited_entries :: "string \<Rightarrow> string \<Rightarrow> string list \<Rightarrow> db \<Rightarrow> jsval list" where
  "visited_entries status f rest db =
     (let entries = index_entries f (db Jobs);
          ranged = (if f = ''status''
                    then filter (\<lambda>v. ikey ''status'' v = Some (KStr status)) entries
                    else entries)
      in if (case rest of [] \<Rightarrow> None | o1 # _ \<Rightarrow> Some o1) = Some ''DESC'' then rev ranged
         else ranged)"

section \<open>Well-formed stores and the status invariant\<close>

text \<open>
  What IndexedDB maintains in every store: each record has a valid primary key, no two
  records share one, and under a unique index no two records share an index key.
\<close>

definition index_unique :: "string \<Rightarrow> jsval list \<Rightarrow> bool" where
  "index_unique f xs =
     (\<forall>v\<in>set xs. \<forall>w\<in>set xs. ikey f v \<noteq> None \<and> ikey f v = ikey f w \<longrightarrow> pkey v = pkey w)"

definition wf_records :: "store_name \<Rightarrow> jsval list \<Rightarrow> bool" where
  "wf_records n xs =
     (distinct (map pkey xs) \<and> (\<forall>v\<in>set xs. pkey v \<noteq> None)
      \<and> (\<forall>f\<in>set (unique_index_names n). index_unique f xs))"

definition wf_db :: "db \<Rightarrow> bool" where
  "wf_db db =
     (wf_records Companies (records (db Companies)) \<and> wf_records Profiles (records (db Profiles))
      \<and> wf_records People (records (db People)) \<and> wf_records Jobs (records (db Jobs)))"



section \<open>Sample documents\<close>

definition acme :: jsval where
  "acme = JObj [(''id'', JNum 1), (''name'', JStr ''Acme'')]"

definition acme_twin :: jsval where
  "acme_twin = JObj [(''id'', JNum 2), (''name'', JStr ''Acme'')]"

definition beta :: jsval where
  "beta = JObj [(''id'', JNum 3), (''name'', JStr ''Beta'')]"

definition twin_doc :: document where
  "twin_doc = (\<lambda>n. None)(Companies := Some [acme, acme_twin, beta])"

definition bad_id_doc :: document where
  "bad_id_doc = (\<lambda>n. None)(Profiles := Some [JObj [(''name'', JStr ''A'')],
      JObj [(''id'', JBool True), (''name'', JStr ''B'')], JObj [(''name'', JStr ''C'')]])"







section \<open>Properties of objects and of the store primitives\<close>

lemma map_of_upd_fields: "map_of (upd_fields f x fs) = (map_of fs)(f \<mapsto> x)"
  by (induction fs) (auto simp: fun_eq_iff)

lemma map_of_del_fields: "map_of (del_fields f fs) = (map_of fs)(f := None)"
  by (induction fs) (auto simp: fun_eq_iff)

lemma get_prop_set_prop_other: "g \<noteq> f \<Longrightarrow> get_prop (set_prop v f x) g = get_prop v g"
  by (cases v; cases x) (simp_all add: map_of_upd_fields map_of_del_fields)



lemma set_prop_obj: "\<exists>gs. set_prop (JObj fs) f x = JObj gs"
  by (cases x) simp_all

lemma pkey_set_prop: "f \<noteq> ''id'' \<Longrightarrow> pkey (set_prop v f x) = pkey v"
  by (simp add: pkey_def get_prop_set_prop_other)

lemma pkey_Some_obj: "pkey v = Some k \<Longrightarrow> \<exists>fs. v = JObj fs"
  by (cases v) (simp_all add: pkey_def)

lemma ikey_Some_obj: "ikey f v = Some k \<Longrightarrow> \<exists>fs. v = JObj fs"
  by (cases v) (simp_all add: ikey_def)

lemma lookup_Some: "lookup s k = Some v \<Longrightarrow> pkey v = Some k \<and> v \<in> set (records s)"
  unfolding lookup_def by (auto simp: find_Some_iff)

lemma lookup_has_key: "has_key s k \<longleftrightarrow> lookup s k \<noteq> None"
  unfolding lookup_def has_key_def by (auto simp: list_ex_iff find_None_iff)


lemma records_bump_keygen [simp]: "records (bump_keygen k s) = records s"
  by (cases k) simp_all

lemma has_key_bump_keygen [simp]: "has_key (bump_keygen k s) k' = has_key s k'"
  by (simp add: has_key_def)

lemma unique_violation_bump_keygen [simp]:
  "unique_violation n (bump_keygen k' s) k v = unique_violation n s k v"
  by (simp add: unique_violation_def)

lemma lookup_delete_record: "lookup (delete_record k s) k = None"
  by (simp add: lookup_def delete_record_def find_None_iff)

text \<open>Putting back a record that was read from the store, with one property other than
  \<^verbatim>\<open>id\<close> assigned, replaces the stored record under the same key.\<close>

lemma store_record_put_existing:
  assumes "lookup s k = Some v" and "unique_index_names n = []" and "f \<noteq> ''id''"
  shows "store_record False n (set_prop v f x) s =
     Succeeded (k, (bump_keygen k s)\<lparr>records :=
        map (\<lambda>w. if pkey w = Some k then set_prop v f x else w) (records s)\<rparr>)"
proof -
  from assms(1) have pk: "pkey v = Some k" and hk: "has_key s k"
    by (simp_all add: lookup_Some lookup_has_key)
  from pk obtain fs where v: "v = JObj fs" by (auto dest: pkey_Some_obj)
  have pk': "pkey (set_prop v f x) = Some k" using pk assms(3) by (simp add: pkey_set_prop)
  obtain gs where v': "set_prop v f x = JObj gs" using v set_prop_obj by blast
  from pk' obtain y where y: "get_prop (set_prop v f x) ''id'' = Some y" "key_of (Some y) = Some k"
    by (cases "get_prop (set_prop v f x) ''id''") (auto simp: pkey_def)
  show ?thesis
    using y hk assms(2) v'
    by (simp add: store_record_def commit_record_def unique_violation_def)
qed

lemma updateItem_put_existing:
  assumes "lookup (db n) k = Some v" and "unique_index_names n = []" and "f \<noteq> ''id''"
  shows "updateItem n (set_prop v f x) db =
     (Inr (), db(n := (bump_keygen k (db n))\<lparr>records :=
        map (\<lambda>w. if pkey w = Some k then set_prop v f x else w) (records (db n))\<rparr>))"
  by (simp add: updateItem_def store_record_put_existing [OF assms])

lemma set_index_entries:
  "set (index_entries f s) = {v \<in> set (records s). ikey f v \<noteq> None}"
  by (simp add: index_entries_def)

lemma truthy_lookup: "lookup s k = Some v \<Longrightarrow> truthy (Some v)"
  by (auto dest!: lookup_Some pkey_Some_obj)

section \<open>Deleting a company\<close>

text \<open>
  Claim C6. \<^verbatim>\<open>deleteCompany(id)\<close>, for an id that is a valid key, resolves without an
  error and removes from the companies store the record with that key and nothing else:
  the profiles, people and jobs stores are as before, so every job, also one whose
  \<^verbatim>\<open>company_id\<close> is the deleted id, is read back unchanged.
\<close>

theorem deleteCompany_only_company:
  assumes "key_of (Some cid) = Some k"
  shows "\<exists>db'. deleteCompany cid db = (Inr (), db')
           \<and> records (db' Companies) = filter (\<lambda>v. pkey v \<noteq> Some k) (records (db Companies))
           \<and> db' Profiles = db Profiles \<and> db' People = db People \<and> db' Jobs = db Jobs
           \<and> (\<forall>jid. getJob jid db' = getJob jid db)"
  using assms
  by (simp add: deleteCompany_def deleteItem_def delete_record_def getJob_def getItem_def
      split: option.splits)

theorem deleteCompany_only_company_witness:
  "key_of (Some (JNum 1)) = Some (KNum 1)
   \<and> (\<exists>db'. deleteCompany (JNum 1) acme_db = (Inr (), db')
           \<and> records (db' Companies) = []
           \<and> db' Jobs = acme_db Jobs
           \<and> getJob (JNum 1) db' = Inr (Some acme_job))"
proof -
  have h: "key_of (Some (JNum 1)) = Some (KNum 1)" by simp
  have g: "getJob (JNum 1) acme_db = Inr (Some acme_job)"
    by (simp add: getJob_def getItem_def lookup_def acme_db_def acme_job_def pkey_def)
  have c: "filter (\<lambda>v. pkey v \<noteq> Some (KNum 1)) (records (acme_db Companies)) = []"
    by (simp add: acme_db_def pkey_def)
  from deleteCompany_only_company [OF h, of acme_db] obtain db' where
    "deleteCompany (JNum 1) acme_db = (Inr (), db')"
    "records (db' Companies) = filter (\<lambda>v. pkey v \<noteq> Some (KNum 1)) (records (acme_db Companies))"
    "db' Jobs = acme_db Jobs" "\<forall>jid. getJob jid db' = getJob jid acme_db"
    by blast
  with h g c show ?thesis by simp
qed

section \<open>Editing notes\<close>

lemma update_notes_found:
  assumes "key_of (Some ident) = Some k" and "lookup (db n) k = Some v"
    and "unique_index_names n = []"
  shows "(case getItem n ident db of
            Inl e \<Rightarrow> (Inl e, db)
          | Inr r \<Rightarrow>
             (case r of
                Some p \<Rightarrow> (if truthy r then updateItem n (set_prop p ''notes'' (Some notes)) db
                           else (Inr (), db))
              | None \<Rightarrow> (Inr (), db))) =
         (Inr (), db(n := (bump_keygen k (db n))\<lparr>records :=
            map (\<lambda>w. if pkey w = Some k then set_prop v ''notes'' (Some notes) else w)
              (records (db n))\<rparr>))"
  using assms truthy_lookup [OF assms(2)]
  by (simp add: getItem_def updateItem_put_existing)

lemma update_notes_missing:
  assumes "key_of (Some ident) = Some k" and "lookup (db n) k = None"
  shows "(case getItem n ident db of
            Inl e \<Rightarrow> (Inl e, db)
          | Inr r \<Rightarrow>
             (case r of
                Some p \<Rightarrow> (if truthy r then updateItem n (set_prop p ''notes'' (Some notes)) db
                           else (Inr (), db))
              | None \<Rightarrow> (Inr (), db))) = (Inr (), db)"
  using assms by (simp add: getItem_def)

text \<open>
  Claim C10. For an id that is a valid key, \<^verbatim>\<open>updateJobNotes(id, notes)\<close> and
  \<^verbatim>\<open>updatePersonNotes(id, notes)\<close> resolve; when the store holds a record \<open>v\<close> under
  that key, the record is replaced by \<open>v\<close> with \<^verbatim>\<open>notes\<close> assigned, whose other
  properties read as in \<open>v\<close>, while every other record of the store and every other
  store are as before; when the store holds no such record, the whole database is as
  before.
\<close>

theorem update_notes_frame:
  assumes "key_of (Some ident) = Some k"
  shows "(\<forall>v. lookup (db Jobs) k = Some v \<longrightarrow>
            (\<exists>db'. updateJobNotes ident notes db = (Inr (), db')
               \<and> records (db' Jobs) =
                   map (\<lambda>w. if pkey w = Some k then set_prop v ''notes'' (Some notes) else w)
                     (records (db Jobs))
               \<and> get_prop (set_prop v ''notes'' (Some notes)) ''notes'' = Some notes
               \<and> (\<forall>f. f \<noteq> ''notes'' \<longrightarrow>
                     get_prop (set_prop v ''notes'' (Some notes)) f = get_prop v f)
               \<and> db' Companies = db Companies \<and> db' Profiles = db Profiles
               \<and> db' People = db People))
       \<and> (lookup (db Jobs) k = None \<longrightarrow> updateJobNotes ident notes db = (Inr (), db))
       \<and> (\<forall>v. lookup (db People) k = Some v \<longrightarrow>
            (\<exists>db'. updatePersonNotes ident notes db = (Inr (), db')
               \<and> records (db' People) =
                   map (\<lambda>w. if pkey w = Some k then set_prop v ''notes'' (Some notes) else w)
                     (records (db People))
               \<and> get_prop (set_prop v ''notes'' (Some notes)) ''notes'' = Some notes
               \<and> (\<forall>f. f \<noteq> ''notes'' \<longrightarrow>
                     get_prop (set_prop v ''notes'' (Some notes)) f = get_prop v f)
               \<and> db' Companies = db Companies \<and> db' Profiles = db Profiles
               \<and> db' Jobs = db Jobs))
       \<and> (lookup (db People) k = None \<longrightarrow> updatePersonNotes ident notes db = (Inr (), db))"
proof -
  have obj: "get_prop (set_prop v ''notes'' (Some notes)) ''notes'' = Some notes"
    if "lookup s k = Some v" for v s
  proof -
    from that obtain fs where "v = JObj fs" by (auto dest!: lookup_Some pkey_Some_obj)
    then show ?thesis by (simp add: map_of_upd_fields)
  qed
  have jobs: "updateJobNotes ident notes db =
      (Inr (), db(Jobs := (bump_keygen k (db Jobs))\<lparr>records :=
            map (\<lambda>w. if pkey w = Some k then set_prop v ''notes'' (Some notes) else w)
              (records (db Jobs))\<rparr>))" if "lookup (db Jobs) k = Some v" for v
    unfolding updateJobNotes_def
    using update_notes_found [where db = db and n = Jobs, OF assms that] by simp
  have people: "updatePersonNotes ident notes db =
      (Inr (), db(People := (bump_keygen k (db People))\<lparr>records :=
            map (\<lambda>w. if pkey w = Some k then set_prop v ''notes'' (Some notes) else w)
              (records (db People))\<rparr>))" if "lookup (db People) k = Some v" for v
    unfolding updatePersonNotes_def
    using update_notes_found [where db = db and n = People, OF assms that] by simp
  have jobs0: "updateJobNotes ident notes db = (Inr (), db)" if "lookup (db Jobs) k = None"
    unfolding updateJobNotes_def
    using update_notes_missing [where db = db and n = Jobs, OF assms that] by simp
  have people0: "updatePersonNotes ident notes db = (Inr (), db)"
    if "lookup (db People) k = None"
    unfolding updatePersonNotes_def
    using update_notes_missing [where db = db and n = People, OF assms that] by simp
  show ?thesis
    using jobs people jobs0 people0 obj
    by (simp add: get_prop_set_prop_other)
qed

theorem update_notes_frame_witness:
  "key_of (Some (JNum 1)) = Some (KNum 1)
   \<and> lookup (acme_db Jobs) (KNum 1) = Some acme_job
   \<and> (\<exists>db'. updateJobNotes (JNum 1) (JStr ''call back'') acme_db = (Inr (), db')
          \<and> records (db' Jobs) = [set_prop acme_job ''notes'' (Some (JStr ''call back''))]
          \<and> get_prop (set_prop acme_job ''notes'' (Some (JStr ''call back''))) ''title''
              = Some (JStr ''Engineer'')
          \<and> db' Companies = acme_db Companies)
   \<and> lookup (acme_db People) (KNum 1) = None
   \<and> updatePersonNotes (JNum 1) (JStr ''call back'') acme_db = (Inr (), acme_db)"
proof -
  have h: "key_of (Some (JNum 1)) = Some (KNum 1)" by simp
  have j: "lookup (acme_db Jobs) (KNum 1) = Some acme_job"
    by (simp add: lookup_def acme_db_def acme_job_def pkey_def)
  have p: "lookup (acme_db People) (KNum 1) = None"
    by (simp add: lookup_def acme_db_def empty_store_def)
  have r: "map (\<lambda>w. if pkey w = Some (KNum 1)
                     then set_prop acme_job ''notes'' (Some (JStr ''call back'')) else w)
             (records (acme_db Jobs)) = [set_prop acme_job ''notes'' (Some (JStr ''call back''))]"
    by (simp add: acme_db_def acme_job_def pkey_def)
  have t: "get_prop acme_job ''title'' = Some (JStr ''Engineer'')"
    by (simp add: acme_job_def)
  note f = update_notes_frame [OF h, of acme_db "JStr ''call back''"]
  from f j obtain db' where
    "updateJobNotes (JNum 1) (JStr ''call back'') acme_db = (Inr (), db')"
    "records (db' Jobs) = map (\<lambda>w. if pkey w = Some (KNum 1)
                     then set_prop acme_job ''notes'' (Some (JStr ''call back'')) else w)
             (records (acme_db Jobs))"
    "\<forall>f. f \<noteq> ''notes'' \<longrightarrow>
        get_prop (set_prop acme_job ''notes'' (Some (JStr ''call back''))) f = get_prop acme_job f"
    "db' Companies = acme_db Companies"
    by blast
  moreover from f p
  have "updatePersonNotes (JNum 1) (JStr ''call back'') acme_db = (Inr (), acme_db)"
    by blast
  ultimately show ?thesis using h j p r t by auto
qed

section \<open>A missing target on the update and delete paths\<close>







section \<open>Deleting a profile\<close>

text \<open>
  Claim C2 describes the click listener of \<^verbatim>\<open>profiles-table-body\<close>. The delete dialog
  takes the other path: \<^verbatim>\<open>handleDeleteConfirmed\<close> with type \<^verbatim>\<open>'profile'\<close> calls
  \<^verbatim>\<open>deleteProfile\<close> alone. On the sample database the profile 1 is deleted, the call
  succeeds, and the job still carries \<^verbatim>\<open>profile_id\<close> 1.
\<close>

theorem handleDeleteConfirmed_profile_keeps_links:
  "fst (handleDeleteConfirmed (JNum 1) ''profile'' acme_db) = Inr ()
   \<and> records (snd (handleDeleteConfirmed (JNum 1) ''profile'' acme_db) Profiles) = []
   \<and> records (snd (handleDeleteConfirmed (JNum 1) ''profile'' acme_db) Jobs) = [acme_job]
   \<and> get_prop acme_job ''profile_id'' = Some (JNum 1)"
  by (simp add: handleDeleteConfirmed_def deleteProfile_def deleteItem_def delete_record_def
      acme_db_def acme_job_def pkey_def)


text \<open>
  The click listener, by contrast, unlinks first: when it succeeds on a jobs store whose
  records all have a primary key, no job is left with the deleted profile's key as
  \<^verbatim>\<open>profile_id\<close>, and the profile is gone.
\<close>

lemma ikey_unlinked:
  assumes "pkey job = Some kj"
  shows "ikey ''profile_id'' (set_prop (set_prop (set_prop job ''profile_id'' (Some JNull))
           ''match_percentage'' (Some JNull)) ''match_justification'' (Some JNull)) = None"
    and "pkey (set_prop (set_prop (set_prop job ''profile_id'' (Some JNull))
           ''match_percentage'' (Some JNull)) ''match_justification'' (Some JNull)) = Some kj"
proof -
  from assms obtain fs where "job = JObj fs" by (auto dest: pkey_Some_obj)
  then show "ikey ''profile_id'' (set_prop (set_prop (set_prop job ''profile_id'' (Some JNull))
           ''match_percentage'' (Some JNull)) ''match_justification'' (Some JNull)) = None"
    by (simp add: ikey_def get_prop_set_prop_other map_of_upd_fields)
  show "pkey (set_prop (set_prop (set_prop job ''profile_id'' (Some JNull))
           ''match_percentage'' (Some JNull)) ''match_justification'' (Some JNull)) = Some kj"
    using assms by (simp add: pkey_set_prop)
qed

lemma updateItem_jobs_result:
  assumes "updateItem Jobs v db = (Inr (), db')" and "pkey v = Some kj"
  shows "set (records (db' Jobs)) \<subseteq> insert v {w \<in> set (records (db Jobs)). pkey w \<noteq> Some kj}"
    and "\<forall>n. n \<noteq> Jobs \<longrightarrow> db' n = db n"
proof -
  from assms(2) obtain fs where v: "v = JObj fs" by (auto dest: pkey_Some_obj)
  from assms(2) obtain y where y: "get_prop v ''id'' = Some y" "key_of (Some y) = Some kj"
    by (cases "get_prop v ''id''") (auto simp: pkey_def)
  have sr: "store_record False Jobs v (db Jobs) =
      Succeeded (kj, (bump_keygen kj (db Jobs))\<lparr>records :=
         (if has_key (db Jobs) kj
          then map (\<lambda>w. if pkey w = Some kj then v else w) (records (db Jobs))
          else records (db Jobs) @ [v])\<rparr>)"
    using v y by (simp add: store_record_def commit_record_def unique_violation_def)
  then have db': "db' = db(Jobs := (bump_keygen kj (db Jobs))\<lparr>records :=
         (if has_key (db Jobs) kj
          then map (\<lambda>w. if pkey w = Some kj then v else w) (records (db Jobs))
          else records (db Jobs) @ [v])\<rparr>)"
    using assms(1) by (simp add: updateItem_def)
  show "\<forall>n. n \<noteq> Jobs \<longrightarrow> db' n = db n" by (simp add: db')
  show "set (records (db' Jobs)) \<subseteq> insert v {w \<in> set (records (db Jobs)). pkey w \<noteq> Some kj}"
    by (auto simp: db' has_key_def list_ex_iff)
qed

lemma unlink_jobs_result:
  assumes "unlink_jobs js db = (Inr (), db')" and "\<forall>j\<in>set js. pkey j \<noteq> None"
  shows "(\<forall>w\<in>set (records (db' Jobs)). ikey ''profile_id'' w = Some k \<longrightarrow>
            w \<in> set (records (db Jobs)) \<and> pkey w \<notin> pkey ` set js)
       \<and> (\<forall>n. n \<noteq> Jobs \<longrightarrow> db' n = db n)"
  using assms
proof (induction js arbitrary: db)
  case Nil
  then show ?case by simp
next
  case (Cons job js)
  let ?job3 = "set_prop (set_prop (set_prop job ''profile_id'' (Some JNull))
           ''match_percentage'' (Some JNull)) ''match_justification'' (Some JNull)"
  from Cons.prems(2) obtain kj where kj: "pkey job = Some kj" by auto
  obtain r db2 where u: "updateJob ?job3 db = (r, db2)" by (cases "updateJob ?job3 db")
  from Cons.prems(1) u obtain "r = Inr ()" and rest: "unlink_jobs js db2 = (Inr (), db')"
    by (cases r) (auto simp: Let_def)
  with u have u': "updateItem Jobs ?job3 db = (Inr (), db2)" by (simp add: updateJob_def)
  note res = updateItem_jobs_result [OF u' ikey_unlinked(2) [OF kj]]
  have ih: "(\<forall>w\<in>set (records (db' Jobs)). ikey ''profile_id'' w = Some k \<longrightarrow>
            w \<in> set (records (db2 Jobs)) \<and> pkey w \<notin> pkey ` set js)
       \<and> (\<forall>n. n \<noteq> Jobs \<longrightarrow> db' n = db2 n)"
    by (rule Cons.IH [OF rest]) (use Cons.prems(2) in simp)
  have "w \<in> set (records (db Jobs)) \<and> pkey w \<notin> pkey ` set (job # js)"
    if w: "w \<in> set (records (db' Jobs))" "ikey ''profile_id'' w = Some k" for w
  proof -
    from ih w have w2: "w \<in> set (records (db2 Jobs))" "pkey w \<notin> pkey ` set js" by auto
    from w(2) ikey_unlinked(1) [OF kj] have "w \<noteq> ?job3" by auto
    with w2(1) res(1) have "w \<in> set (records (db Jobs))" "pkey w \<noteq> Some kj" by auto
    with w2(2) kj show ?thesis by simp
  qed
  moreover have "\<forall>n. n \<noteq> Jobs \<longrightarrow> db' n = db n" using ih res(2) by simp
  ultimately show ?case by blast
qed

lemma profile_click_unlinks:
  assumes "profiles_table_body_click pid db = (Inr (), db')"
    and "\<forall>j\<in>set (records (db Jobs)). pkey j \<noteq> None"
  shows "\<exists>k. key_of (Some pid) = Some k
           \<and> (\<forall>w\<in>set (records (db' Jobs)). ikey ''profile_id'' w \<noteq> Some k)
           \<and> lookup (db' Profiles) k = None"
proof -
  obtain k where k: "key_of (Some pid) = Some k"
  proof (cases "key_of (Some pid)")
    case None
    have "fst (profiles_table_body_click pid db) \<noteq> Inr ()"
    proof (cases "getJobsByProfileId pid db")
      case (Inl e)
      then show ?thesis by (simp add: profiles_table_body_click_def)
    next
      case (Inr js)
      obtain r db1 where "unlink_jobs js db = (r, db1)" by (cases "unlink_jobs js db")
      then show ?thesis
        using Inr None
        by (cases r) (simp_all add: profiles_table_body_click_def deleteProfile_def deleteItem_def)
    qed
    with assms(1) show ?thesis by simp
  qed
  then have kr: "key_range pid = Inr (Some k)" by (cases pid) simp_all
  define js where "js = filter (\<lambda>v. ikey ''profile_id'' v = Some k)
                          (index_entries ''profile_id'' (db Jobs))"
  have gj: "getJobsByProfileId pid db = Inr js"
    by (simp add: getJobsByProfileId_def index_getAll_def kr js_def)
  have sjs: "set js = {v \<in> set (records (db Jobs)). ikey ''profile_id'' v = Some k}"
    by (auto simp: js_def set_index_entries)
  obtain r db1 where ul: "unlink_jobs js db = (r, db1)" by (cases "unlink_jobs js db")
  with assms(1) gj have r: "r = Inr ()" and dp: "deleteProfile pid db1 = (Inr (), db')"
    by (cases r; simp add: profiles_table_body_click_def)+
  have "\<forall>j\<in>set js. pkey j \<noteq> None" using assms(2) sjs by auto
  from unlink_jobs_result [OF ul [unfolded r] this, of k]
  have u1: "\<forall>w\<in>set (records (db1 Jobs)). ikey ''profile_id'' w = Some k \<longrightarrow>
            w \<in> set (records (db Jobs)) \<and> pkey w \<notin> pkey ` set js" by blast
  have none: "\<forall>w\<in>set (records (db1 Jobs)). ikey ''profile_id'' w \<noteq> Some k"
  proof (intro ballI notI)
    fix w assume w: "w \<in> set (records (db1 Jobs))" "ikey ''profile_id'' w = Some k"
    with u1 have "w \<in> set (records (db Jobs))" "pkey w \<notin> pkey ` set js" by auto
    with w(2) sjs show False by auto
  qed
  from dp k have "db' = db1(Profiles := delete_record k (db1 Profiles))"
    by (simp add: deleteProfile_def deleteItem_def)
  then show ?thesis using k none by (simp add: lookup_delete_record)
qed

section \<open>The paginated listing\<close>

text \<open>The cursor handler collects a window of the visited records that pass the status
  test: it drops \<open>skipCount\<close> of them and takes \<open>itemsPerPage\<close>.\<close>

lemma cursor_loop_closed:
  "cursor_loop check status skipCount itemsPerPage skipped results vs =
     results @ take (nat (itemsPerPage - int (length results)))
                 (drop (nat (skipCount - int skipped))
                    (filter (\<lambda>v. \<not> check \<or> get_prop v ''status'' = Some (JStr status)) vs))"
proof (induction vs arbitrary: skipped results)
  case Nil
  then show ?case by simp
next
  case (Cons v vs)
  show ?case
  proof (cases "check \<and> get_prop v ''status'' \<noteq> Some (JStr status)")
    case True
    then show ?thesis using Cons.IH by simp
  next
    case keep: False
    show ?thesis
    proof (cases "int skipped < skipCount")
      case True
      then have "nat (skipCount - int skipped) = Suc (nat (skipCount - int (Suc skipped)))"
        by simp
      then show ?thesis using keep True Cons.IH [of "Suc skipped" results] by auto
    next
      case noskip: False
      then have d: "nat (skipCount - int skipped) = 0" by simp
      show ?thesis
      proof (cases "int (length results) < itemsPerPage")
        case True
        then have "nat (itemsPerPage - int (length results)) =
                     Suc (nat (itemsPerPage - int (length (results @ [v]))))"
          by simp
        then show ?thesis
          using keep noskip True d Cons.IH [of skipped "results @ [v]"] by auto
      next
        case False
        then have "nat (itemsPerPage - int (length results)) = 0" by simp
        then show ?thesis using keep noskip False by auto
      qed
    qed
  qed
qed



lemma getPaginatedJobs_unfold:
  assumes "split_on CHR '' '' sortBy = sortKey # rest"
  shows "getPaginatedJobs status sortBy page itemsPerPage db =
     (if effective_key sortKey \<notin> set (index_names Jobs) then Inl NotFoundError
      else Inr (cursor_loop (effective_key sortKey \<noteq> ''status'') status
                  ((page - 1) * itemsPerPage) itemsPerPage 0 []
                  (visited_entries status (effective_key sortKey) rest db)))"
  unfolding getPaginatedJobs_def assms effective_key_def visited_entries_def Let_def list.case
  by (rule refl)

lemma set_visited_entries:
  "set (visited_entries status f rest db) \<subseteq> set (index_entries f (db Jobs))"
  by (auto simp: visited_entries_def Let_def)


lemma set_cursor_loop: "set (cursor_loop check status skipCount itemsPerPage 0 [] vs) \<subseteq> set vs"
  unfolding cursor_loop_closed by (auto dest!: in_set_takeD in_set_dropD)

lemma getPaginatedJobs_subset:
  assumes "getPaginatedJobs status sortBy page itemsPerPage db = Inr vs"
    and "split_on CHR '' '' sortBy = sortKey # rest"
  shows "set vs \<subseteq> set (index_entries (effective_key sortKey) (db Jobs))"
proof -
  from assms have "vs = cursor_loop (effective_key sortKey \<noteq> ''status'') status
                  ((page - 1) * itemsPerPage) itemsPerPage 0 []
                  (visited_entries status (effective_key sortKey) rest db)"
    by (simp add: getPaginatedJobs_unfold split: if_splits)
  then show ?thesis
    using set_cursor_loop set_visited_entries by blast
qed

text \<open>
  Claim C9. \<^verbatim>\<open>getPaginatedJobs\<close> walks the index named by the sort key
  (\<^verbatim>\<open>company_id\<close> for \<^verbatim>\<open>company_name\<close>). A job whose value for that field is
  \<^verbatim>\<open>null\<close> or absent has no entry in the index, so the cursor never visits it, and the
  call, which resolves for every index of the jobs store, returns it on no page, whatever
  the status filter, the direction, the page and the page size.
\<close>

theorem invalid_sort_key_never_listed:
  assumes "split_on CHR '' '' sortBy = sortKey # rest"
    and "f = (if sortKey = ''company_name'' then ''company_id'' else sortKey)"
    and "f \<in> set (index_names Jobs)"
    and "get_prop j f = None \<or> get_prop j f = Some JNull"
  shows "j \<notin> set (index_entries f (db Jobs))
       \<and> (\<exists>vs. getPaginatedJobs status sortBy page itemsPerPage db = Inr vs \<and> j \<notin> set vs)"
proof -
  from assms(4) have "ikey f j = None" by (auto simp: ikey_def)
  then have n: "j \<notin> set (index_entries f (db Jobs))" by (simp add: set_index_entries)
  have f: "f = effective_key sortKey" using assms(2) by (simp add: effective_key_def)
  obtain vs where vs: "getPaginatedJobs status sortBy page itemsPerPage db = Inr vs"
    using assms(3) unfolding getPaginatedJobs_unfold [OF assms(1)] f by simp
  from getPaginatedJobs_subset [OF vs assms(1)] n f have "j \<notin> set vs" by auto
  with n vs show ?thesis by blast
qed

theorem invalid_sort_key_never_listed_witness:
  "split_on CHR '' '' ''salary ASC'' = [''salary'', ''ASC'']
   \<and> ''salary'' \<in> set (index_names Jobs)
   \<and> get_prop job_b ''salary'' = Some JNull
   \<and> get_prop job_b ''status'' = Some (JStr ''Bookmarked'')
   \<and> job_b \<in> set (records (board_db Jobs))
   \<and> job_b \<notin> set (index_entries ''salary'' (board_db Jobs))
   \<and> (\<exists>vs. getPaginatedJobs ''Bookmarked'' ''salary ASC'' 1 10 board_db = Inr vs
          \<and> job_b \<notin> set vs)"
proof -
  have s: "split_on CHR '' '' ''salary ASC'' = [''salary'', ''ASC'']" by simp
  have f: "''salary'' = (if ''salary'' = ''company_name'' then ''company_id'' else ''salary'')"
    by simp
  have i: "''salary'' \<in> set (index_names Jobs)" by simp
  have n: "get_prop job_b ''salary'' = None \<or> get_prop job_b ''salary'' = Some JNull"
    by (simp add: job_b_def)
  have m: "job_b \<in> set (records (board_db Jobs))" by (simp add: board_db_def)
  have b: "get_prop job_b ''salary'' = Some JNull
           \<and> get_prop job_b ''status'' = Some (JStr ''Bookmarked'')"
    by (simp add: job_b_def)
  show ?thesis
    using s i b m invalid_sort_key_never_listed [OF s f i n, of board_db "''Bookmarked''" 1 10]
    by blast
qed

text \<open>
  Claim C1. On the sample board three jobs are bookmarked, and \<^verbatim>\<open>getJobCount\<close> says so;
  with page size 2 that makes two pages. Sorted by salary, the two pages together hold
  two jobs: the job without a salary is on neither.
\<close>

theorem salary_sort_omits_job:
  "getJobCount (JStr ''Bookmarked'') board_db = Inr 3
   \<and> getPaginatedJobs ''Bookmarked'' ''salary ASC'' 1 2 board_db = Inr [job_c, job_a]
   \<and> getPaginatedJobs ''Bookmarked'' ''salary ASC'' 2 2 board_db = Inr []
   \<and> get_prop job_b ''status'' = Some (JStr ''Bookmarked'')
   \<and> job_b \<in> set (records (board_db Jobs))"
  by code_simp

text \<open>
  What the pages do hold: for every index of the jobs store and every page size \<open>P > 0\<close>,
  the pages \<open>1\<close> to \<open>\<lceil>N / P\<rceil>\<close>, with \<open>N\<close> the count of the status, list in order exactly the
  jobs of the status that have an entry in the index of the sort field.
\<close>

lemma concat_pages:
  "concat (map (\<lambda>p. take P (drop (p * P) ms)) [0..<n]) = take (n * P) ms"
proof (induction n)
  case 0
  then show ?case by simp
next
  case (Suc n)
  have "take (n * P) ms @ take P (drop (n * P) ms) = take (n * P + P) ms"
    by (simp add: take_add)
  with Suc show ?case by (simp add: add.commute)
qed

lemma ikey_status_iff:
  "ikey ''status'' v = Some (KStr status) \<longleftrightarrow> get_prop v ''status'' = Some (JStr status)"
proof (cases "get_prop v ''status''")
  case None
  then show ?thesis by (simp add: ikey_def)
next
  case (Some x)
  then show ?thesis by (cases x) (simp_all add: ikey_def)
qed

lemma visited_matching:
  "filter (\<lambda>v. \<not> (f \<noteq> ''status'') \<or> get_prop v ''status'' = Some (JStr status))
     (visited_entries status f rest db) =
   (if (case rest of [] \<Rightarrow> None | o1 # _ \<Rightarrow> Some o1) = Some ''DESC''
    then rev (matching status f db) else matching status f db)"
  by (simp add: visited_entries_def matching_def Let_def ikey_status_iff rev_filter)

lemma page_result:
  assumes "split_on CHR '' '' sortBy = sortKey # rest"
    and "effective_key sortKey \<in> set (index_names Jobs)"
  shows "getPaginatedJobs status sortBy (int p + 1) (int P) db =
     Inr (take P (drop (p * P)
       (if (case rest of [] \<Rightarrow> None | o1 # _ \<Rightarrow> Some o1) = Some ''DESC''
        then rev (matching status (effective_key sortKey) db)
        else matching status (effective_key sortKey) db)))"
proof -
  have "nat ((int p + 1 - 1) * int P) = p * P"
    by (simp add: nat_mult_distrib)
  then show ?thesis
    unfolding getPaginatedJobs_unfold [OF assms(1)] cursor_loop_closed visited_matching
    using assms(2) by simp
qed

lemma length_matching_le_count:
  assumes "getJobCount (JStr status) db = Inr N"
  shows "length (matching status f db) \<le> N"
proof -
  let ?S = "\<lambda>v. get_prop v ''status'' = Some (JStr status)"
  have N: "N = length (filter ?S (filter (\<lambda>v. ikey ''status'' v \<noteq> None) (records (db Jobs))))"
    using assms
    by (simp add: getJobCount_def index_getAll_def index_entries_def ikey_status_iff
        filter_sort)
  have "length (matching status f db)
          = length (filter ?S (filter (\<lambda>v. ikey f v \<noteq> None) (records (db Jobs))))"
    by (simp add: matching_def index_entries_def filter_sort)
  also have "\<dots> = length (filter (\<lambda>v. ikey f v \<noteq> None) (filter ?S (records (db Jobs))))"
    by (simp add: conj_commute)
  also have "\<dots> \<le> length (filter ?S (records (db Jobs)))"
    by (rule length_filter_le)
  also have "\<dots> = N"
  proof -
    have "(?S v \<and> ikey ''status'' v \<noteq> None) = ?S v" for v
      using ikey_status_iff [of v status] by auto
    then show ?thesis unfolding N by (simp add: conj_commute)
  qed
  finally show ?thesis .
qed

lemma pages_list_indexed_jobs:
  assumes "split_on CHR '' '' sortBy = sortKey # rest"
    and "effective_key sortKey \<in> set (index_names Jobs)"
    and "0 < P" and "getJobCount (JStr status) db = Inr N" and "n = (N + P - 1) div P"
  shows "\<exists>pages. length pages = n
           \<and> (\<forall>p<n. getPaginatedJobs status sortBy (int p + 1) (int P) db = Inr (pages ! p))
           \<and> concat pages =
               (if (case rest of [] \<Rightarrow> None | o1 # _ \<Rightarrow> Some o1) = Some ''DESC''
                then rev (matching status (effective_key sortKey) db)
                else matching status (effective_key sortKey) db)"
proof -
  let ?ms = "if (case rest of [] \<Rightarrow> None | o1 # _ \<Rightarrow> Some o1) = Some ''DESC''
             then rev (matching status (effective_key sortKey) db)
             else matching status (effective_key sortKey) db"
  let ?pages = "map (\<lambda>p. take P (drop (p * P) ?ms)) [0..<n]"
  have "N \<le> n * P"
  proof -
    have "N + P - 1 < ((N + P - 1) div P) * P + P"
      using assms(3) by (metis div_mult_mod_eq mod_less_divisor nat_add_left_cancel_less)
    then show ?thesis using assms(3,5) by simp
  qed
  moreover have "length ?ms \<le> N"
    using length_matching_le_count [OF assms(4)] by simp
  ultimately have "take (n * P) ?ms = ?ms" by simp
  then have "concat ?pages = ?ms" by (simp only: concat_pages)
  moreover have "\<forall>p<n. getPaginatedJobs status sortBy (int p + 1) (int P) db = Inr (?pages ! p)"
    by (simp add: page_result [OF assms(1,2)])
  moreover have "length ?pages = n" by simp
  ultimately show ?thesis by blast
qed

lemma set_matching:
  "set (matching status f db) =
     {v \<in> set (records (db Jobs)). get_prop v ''status'' = Some (JStr status) \<and> ikey f v \<noteq> None}"
  by (auto simp: matching_def set_index_entries)

lemma distinct_matching: "distinct (records (db Jobs)) \<Longrightarrow> distinct (matching status f db)"
  by (simp add: matching_def index_entries_def)

lemma index_entries_sorted: "sorted_wrt (\<lambda>a b. ikey f a \<le> ikey f b) (index_entries f s)"
proof -
  have "sorted (map (\<lambda>v. (ikey f v, pkey v)) (index_entries f s))"
    unfolding index_entries_def by (rule sorted_sort_key)
  then have "sorted_wrt (\<lambda>a b. (ikey f a, pkey a) \<le> (ikey f b, pkey b)) (index_entries f s)"
    by (simp add: sorted_map)
  then show ?thesis
    by (rule sorted_wrt_mono_rel [rotated]) (auto simp: less_eq_prod_def)
qed

lemma visited_entries_desc_sorted:
  "sorted_wrt (\<lambda>a b. ikey f b \<le> ikey f a) (visited_entries status f (''DESC'' # rest) db)"
proof -
  have "sorted_wrt (\<lambda>a b. ikey f a \<le> ikey f b) ranged"
    if "ranged = index_entries f (db Jobs) \<or>
        ranged = filter (\<lambda>v. ikey ''status'' v = Some (KStr status)) (index_entries f (db Jobs))"
    for ranged
    using that index_entries_sorted [of f "db Jobs"] by (auto intro: sorted_wrt_filter)
  then show ?thesis
    by (simp add: visited_entries_def Let_def sorted_wrt_rev)
qed

lemma page_window:
  assumes "sorted_wrt R ms" and "x \<in> set (take n (drop a ms))" and "y \<in> set (take m (drop (a + n) ms))"
  shows "R x y"
proof -
  have "take n (drop a ms) = drop a (take (a + n) ms)"
    by (simp add: drop_take)
  with assms(2) have x: "x \<in> set (take (a + n) ms)" by (auto dest: in_set_dropD)
  from assms(3) have y: "y \<in> set (drop (a + n) ms)" by (auto dest: in_set_takeD)
  have "sorted_wrt R (take (a + n) ms @ drop (a + n) ms)" using assms(1) by simp
  then show ?thesis using x y unfolding sorted_wrt_append by blast
qed

text \<open>
  Claim C7. With sort \<^verbatim>\<open>created_at DESC\<close>, when page \<open>k\<close> (\<open>k \<ge> 1\<close>) and page \<open>k + 1\<close>
  both hold jobs, the \<^verbatim>\<open>created_at\<close> key of the first job of page \<open>k + 1\<close> is at most
  the \<^verbatim>\<open>created_at\<close> key of the last job of page \<open>k\<close>, in the order of IndexedDB keys
  (for two strings, such as ISO timestamps, the order of the strings).
\<close>

theorem created_at_desc_page_boundary:
  assumes "1 \<le> page"
    and "getPaginatedJobs status ''created_at DESC'' page itemsPerPage db = Inr xs"
    and "getPaginatedJobs status ''created_at DESC'' (page + 1) itemsPerPage db = Inr ys"
    and "xs \<noteq> []" and "ys \<noteq> []"
  shows "\<exists>a b. ikey ''created_at'' (last xs) = Some a \<and> ikey ''created_at'' (hd ys) = Some b
           \<and> b \<le> a"
proof -
  have sp: "split_on CHR '' '' ''created_at DESC'' = [''created_at'', ''DESC'']" by simp
  have ek: "effective_key ''created_at'' = ''created_at''" by (simp add: effective_key_def)
  define ms where "ms = filter (\<lambda>v. \<not> (''created_at'' \<noteq> ''status'') \<or> get_prop v ''status'' = Some (JStr status))
     (visited_entries status ''created_at'' [''DESC''] db)"
  have srt: "sorted_wrt (\<lambda>a b. ikey ''created_at'' b \<le> ikey ''created_at'' a) ms"
    unfolding ms_def by (intro sorted_wrt_filter visited_entries_desc_sorted)
  have xs: "xs = take (nat itemsPerPage) (drop (nat ((page - 1) * itemsPerPage)) ms)"
    using assms(2) unfolding getPaginatedJobs_unfold [OF sp] ek cursor_loop_closed ms_def
    by (simp split: if_splits)
  have ys: "ys = take (nat itemsPerPage) (drop (nat ((page + 1 - 1) * itemsPerPage)) ms)"
    using assms(3) unfolding getPaginatedJobs_unfold [OF sp] ek cursor_loop_closed ms_def
    by (simp split: if_splits)
  from xs assms(4) have pos: "0 < itemsPerPage" by (cases "0 < itemsPerPage") auto
  have "nat ((page + 1 - 1) * itemsPerPage) = nat ((page - 1) * itemsPerPage) + nat itemsPerPage"
    using assms(1) pos by (simp add: nat_add_distrib [symmetric] algebra_simps)
  with ys have ys': "ys = take (nat itemsPerPage)
      (drop (nat ((page - 1) * itemsPerPage) + nat itemsPerPage) ms)" by simp
  have lx: "last xs \<in> set (take (nat itemsPerPage) (drop (nat ((page - 1) * itemsPerPage)) ms))"
    using assms(4) xs by (metis last_in_set)
  have hy: "hd ys \<in> set (take (nat itemsPerPage)
      (drop (nat ((page - 1) * itemsPerPage) + nat itemsPerPage) ms))"
    using assms(5) ys' by (metis list.set_sel(1))
  have le: "ikey ''created_at'' (hd ys) \<le> ikey ''created_at'' (last xs)"
    by (rule page_window [OF srt lx hy])
  have inx: "set ms \<subseteq> set (index_entries ''created_at'' (db Jobs))"
    unfolding ms_def
    using set_visited_entries [of status "''created_at''" "[''DESC'']" db] by auto
  from lx have "last xs \<in> set ms" by (auto dest!: in_set_takeD in_set_dropD)
  with inx obtain a where a: "ikey ''created_at'' (last xs) = Some a"
    by (auto simp: set_index_entries)
  from hy have "hd ys \<in> set ms" by (auto dest!: in_set_takeD in_set_dropD)
  with inx obtain b where b: "ikey ''created_at'' (hd ys) = Some b"
    by (auto simp: set_index_entries)
  from le a b show ?thesis by simp
qed


theorem created_at_desc_page_boundary_witness:
  "(1::int) \<le> 1
   \<and> getPaginatedJobs ''Bookmarked'' ''created_at DESC'' 1 2 board_db = Inr [job_c, job_b]
   \<and> getPaginatedJobs ''Bookmarked'' ''created_at DESC'' (1 + 1) 2 board_db = Inr [job_a]
   \<and> [job_c, job_b] \<noteq> [] \<and> [job_a] \<noteq> []
   \<and> (\<exists>a b. ikey ''created_at'' (last [job_c, job_b]) = Some a
          \<and> ikey ''created_at'' (hd [job_a]) = Some b \<and> b \<le> a)"
proof -
  have p: "(1::int) \<le> 1" by simp
  have x: "getPaginatedJobs ''Bookmarked'' ''created_at DESC'' 1 2 board_db = Inr [job_c, job_b]"
    by code_simp
  have y: "getPaginatedJobs ''Bookmarked'' ''created_at DESC'' (1 + 1) 2 board_db = Inr [job_a]"
    by code_simp
  have nx: "[job_c, job_b] \<noteq> []" and ny: "[job_a] \<noteq> []" by simp_all
  show ?thesis
    using p x y nx ny created_at_desc_page_boundary [OF p x y nx ny] by blast
qed

section \<open>Every write keeps the stores well formed\<close>

text \<open>
  The empty database is well formed, and \<^verbatim>\<open>addItem\<close>, \<^verbatim>\<open>updateItem\<close>,
  \<^verbatim>\<open>deleteItem\<close> and \<^verbatim>\<open>importDB\<close>, through which every write of the application goes,
  keep it so: the well-formed databases include every state the code can reach.
\<close>

lemma wf_db_iff: "wf_db db \<longleftrightarrow> (\<forall>n. wf_records n (records (db n)))"
proof
  assume w: "wf_db db"
  show "\<forall>n. wf_records n (records (db n))"
  proof
    fix n show "wf_records n (records (db n))" using w by (cases n) (simp_all add: wf_db_def)
  qed
qed (simp add: wf_db_def)

lemma map_pkey_replace:
  "pkey v = Some k \<Longrightarrow>
     map (\<lambda>w. pkey (if pkey w = Some k then v else w)) xs = map pkey xs"
  by (induction xs) auto

lemma index_unique_subset: "set ys \<subseteq> set xs \<Longrightarrow> index_unique f xs \<Longrightarrow> index_unique f ys"
  unfolding index_unique_def by (meson subsetD)

lemma wf_records_Nil: "wf_records n []"
  by (simp add: wf_records_def index_unique_def)

lemma commit_record_wf:
  assumes "wf_records n (records s)" and "pkey v = Some k"
    and "commit_record b n k v s = Succeeded (k', s')"
  shows "wf_records n (records s')"
proof -
  from assms(3) have nu: "\<not> unique_violation n s k v"
    and rs: "records s' = (if has_key s k
                then map (\<lambda>w. if pkey w = Some k then v else w) (records s)
                else records s @ [v])"
    by (auto simp: commit_record_def split: if_splits)
  have el: "set (records s') \<subseteq> insert v {w \<in> set (records s). pkey w \<noteq> Some k}"
    unfolding rs by (auto simp: has_key_def list_ex_iff)
  have d: "distinct (map pkey (records s'))"
  proof (cases "has_key s k")
    case True
    then have "map pkey (records s') = map pkey (records s)"
      by (simp add: rs o_def map_pkey_replace [OF assms(2)])
    then show ?thesis using assms(1) by (simp add: wf_records_def)
  next
    case False
    then have "Some k \<notin> pkey ` set (records s)" by (auto simp: has_key_def list_ex_iff)
    then show ?thesis using False rs assms(1,2) by (simp add: wf_records_def)
  qed
  have p: "\<forall>w\<in>set (records s'). pkey w \<noteq> None"
    using el assms(1,2) by (auto simp: wf_records_def)
  have u: "index_unique f (records s')" if f: "f \<in> set (unique_index_names n)" for f
    unfolding index_unique_def
  proof (intro ballI impI)
    fix a c assume a: "a \<in> set (records s')" and c: "c \<in> set (records s')"
      and e: "ikey f a \<noteq> None \<and> ikey f a = ikey f c"
    have old: "index_unique f (records s)" using assms(1) f by (simp add: wf_records_def)
    have clash: False if "w \<in> set (records s)" "pkey w \<noteq> Some k" "ikey f w = ikey f v"
      "ikey f v \<noteq> None" for w
      using nu f that by (auto simp: unique_violation_def list_ex_iff)
    consider "a = v" "c = v" | "a = v" "c \<noteq> v" | "a \<noteq> v" "c = v" | "a \<noteq> v" "c \<noteq> v"
      by blast
    then show "pkey a = pkey c"
    proof cases
      case 1
      then show ?thesis by simp
    next
      case 2
      with c el have cs: "c \<in> set (records s)" "pkey c \<noteq> Some k" by auto
      from e 2 have "ikey f c = ikey f v" "ikey f v \<noteq> None" by metis+
      from clash [OF cs this] show ?thesis ..
    next
      case 3
      with a el have as: "a \<in> set (records s)" "pkey a \<noteq> Some k" by auto
      from e 3 have "ikey f a = ikey f v" "ikey f v \<noteq> None" by metis+
      from clash [OF as this] show ?thesis ..
    next
      case 4
      with a c el have "a \<in> set (records s)" "c \<in> set (records s)" by auto
      with old e show ?thesis unfolding index_unique_def by blast
    qed
  qed
  from d p u show ?thesis by (simp add: wf_records_def)
qed

lemma store_record_wf:
  assumes "wf_records n (records s)" and "store_record b n item s = Succeeded (k, s')"
  shows "wf_records n (records s')"
proof (cases item)
  case (JObj fs)
  show ?thesis
  proof (cases "get_prop item ''id''")
    case None
    let ?v = "set_prop item ''id'' (Some (JNum (keygen s)))"
    have c: "commit_record b n (KNum (keygen s)) ?v (s\<lparr>keygen := keygen s + 1\<rparr>) = Succeeded (k, s')"
      using assms(2) JObj None by (simp add: store_record_def)
    have "pkey ?v = Some (KNum (keygen s))"
      using JObj by (simp add: pkey_def map_of_upd_fields)
    from commit_record_wf [OF _ this c] assms(1) show ?thesis by simp
  next
    case (Some y)
    with assms(2) JObj obtain k0 where k0: "key_of (Some y) = Some k0"
      and c: "commit_record b n k0 item (bump_keygen k0 s) = Succeeded (k, s')"
      by (auto simp: store_record_def split: option.splits)
    have "pkey item = Some k0" using Some k0 by (simp add: pkey_def)
    from commit_record_wf [OF _ this c] assms(1) show ?thesis by simp
  qed
qed (use assms(2) in \<open>simp_all add: store_record_def\<close>)

lemma delete_record_wf: "wf_records n (records s) \<Longrightarrow> wf_records n (records (delete_record k s))"
  unfolding wf_records_def delete_record_def
  using index_unique_subset [of "filter (\<lambda>v. pkey v \<noteq> Some k) (records s)" "records s"]
  by (simp add: distinct_map_filter)

lemma addItem_wf: "wf_db db \<Longrightarrow> wf_db (snd (addItem n item db))"
proof (cases "store_record True n item (db n)")
  case (Succeeded r)
  assume w: "wf_db db"
  obtain k s' where r: "r = (k, s')" by (cases r)
  from store_record_wf [OF _ Succeeded [unfolded r]] w have "wf_records n (records s')"
    by (simp add: wf_db_iff)
  then show ?thesis using w Succeeded r by (simp add: addItem_def wf_db_iff)
qed (simp_all add: addItem_def)

lemma updateItem_wf: "wf_db db \<Longrightarrow> wf_db (snd (updateItem n item db))"
proof (cases "store_record False n item (db n)")
  case (Succeeded r)
  assume w: "wf_db db"
  obtain k s' where r: "r = (k, s')" by (cases r)
  from store_record_wf [OF _ Succeeded [unfolded r]] w have "wf_records n (records s')"
    by (simp add: wf_db_iff)
  then show ?thesis using w Succeeded r by (simp add: updateItem_def wf_db_iff)
qed (simp_all add: updateItem_def)

lemma deleteItem_wf: "wf_db db \<Longrightarrow> wf_db (snd (deleteItem n key db))"
  by (cases "key_of (Some key)") (simp_all add: deleteItem_def wf_db_iff delete_record_wf)

lemma import_items_wf_view:
  assumes "\<forall>m. wf_records m (records (view t m))"
  shows "\<forall>m. wf_records m (records (view (snd (import_items n items t)) m))"
  using assms
proof (induction items arbitrary: t)
  case Nil
  then show ?case by simp
next
  case (Cons item items)
  let ?item1 = "if get_prop item ''id'' = Some JNull \<or> get_prop item ''id'' = None
                then delete_prop item ''id'' else item"
  have keep: "\<forall>m. wf_records m (records (view (snd (import_items n items (t\<lparr>tstate := st\<rparr>))) m))"
    for st by (rule Cons.IH) (use Cons.prems in simp)
  have add: "\<forall>m. wf_records m (records (view (snd (import_items n items
                (t\<lparr>view := (view t)(n := s)\<rparr>))) m))"
    if "store_record True n ?item1 (view t n) = Succeeded (k, s)" for k s
  proof (rule Cons.IH)
    from store_record_wf [OF _ that] Cons.prems have "wf_records n (records s)" by simp
    then show "\<forall>m. wf_records m (records (view (t\<lparr>view := (view t)(n := s)\<rparr>) m))"
      using Cons.prems by simp
  qed
  show ?case
  proof (cases "item = JNull")
    case True
    then show ?thesis using Cons.prems by simp
  next
    case False
    show ?thesis
    proof (cases "tstate t")
      case Active
      show ?thesis
      proof (cases "store_record True n ?item1 (view t n)")
        case (Threw e)
        then show ?thesis using False Active Cons.prems by (simp add: Let_def)
      next
        case (Failed e)
        then show ?thesis using False Active keep [of ErrorDispatch] by (simp add: Let_def)
      next
        case (Succeeded r)
        obtain k s where r: "r = (k, s)" by (cases r)
        with Succeeded add [of k s] False Active show ?thesis by (simp add: Let_def)
      qed
    next
      case ErrorDispatch
      show ?thesis
      proof (cases "store_record True n ?item1 (view t n)")
        case (Threw e)
        then show ?thesis using False ErrorDispatch Cons.prems by (simp add: Let_def)
      next
        case (Failed e)
        then show ?thesis using False ErrorDispatch keep [of Finished] by (simp add: Let_def)
      next
        case (Succeeded r)
        then show ?thesis using False ErrorDispatch keep [of Finished] by (simp add: Let_def)
      qed
    next
      case Finished
      then show ?thesis using False Cons.prems by (simp add: Let_def)
    qed
  qed
qed

lemma import_stores_wf_view:
  assumes "\<forall>m. wf_records m (records (view t m))"
  shows "\<forall>m. wf_records m (records (view (snd (import_stores ns data t)) m))"
  using assms
proof (induction ns arbitrary: t)
  case Nil
  then show ?case by simp
next
  case (Cons n ns)
  let ?t1 = "t\<lparr>view := (view t)(n := clear_store (view t n))\<rparr>"
  have c: "\<forall>m. wf_records m (records (view ?t1 m))"
    using Cons.prems by (simp add: clear_store_def wf_records_Nil)
  show ?case
  proof (cases "tstate t")
    case Active
    show ?thesis
    proof (cases "data n")
      case None
      then show ?thesis using Active Cons.IH [OF c] by (simp add: Let_def)
    next
      case (Some items)
      obtain r t2 where r: "import_items n items ?t1 = (r, t2)" by (cases "import_items n items ?t1")
      with import_items_wf_view [OF c, of n items]
      have t2: "\<forall>m. wf_records m (records (view t2 m))" by simp
      show ?thesis
      proof (cases r)
        case None
        then show ?thesis using Active Some r Cons.IH [OF t2] by (simp add: Let_def)
      next
        case (Some e)
        then show ?thesis using Active \<open>data n = Some items\<close> r t2 by (simp add: Let_def)
      qed
    qed
  next
    case ErrorDispatch
    then show ?thesis using Cons.prems by simp
  next
    case Finished
    then show ?thesis using Cons.prems by simp
  qed
qed

lemma importDB_wf: "wf_db db \<Longrightarrow> wf_db (snd (importDB data db))"
proof -
  assume w: "wf_db db"
  then have "\<forall>m. wf_records m (records (view \<lparr>view = db, tstate = Active\<rparr> m))"
    by (simp add: wf_db_iff)
  from import_stores_wf_view [OF this, of "[Companies, Profiles, People, Jobs]" data]
  have v: "\<forall>m. wf_records m (records (view (snd (import_stores
      [Companies, Profiles, People, Jobs] data \<lparr>view = db, tstate = Active\<rparr>)) m))" .
  obtain r t where rt: "import_stores [Companies, Profiles, People, Jobs] data
      \<lparr>view = db, tstate = Active\<rparr> = (r, t)"
    by (cases "import_stores [Companies, Profiles, People, Jobs] data
      \<lparr>view = db, tstate = Active\<rparr>")
  with v have "\<forall>m. wf_records m (records (view t m))" by simp
  then show ?thesis using w unfolding importDB_def rt by (simp add: wf_db_iff)
qed

lemma wf_db_empty: "wf_db (\<lambda>n. empty_store)"
  by (simp add: wf_db_def wf_records_def empty_store_def index_unique_def)

section \<open>Backup and restore\<close>





lemma getAll_sorted_records:
  "records s = sort_key pkey xs \<Longrightarrow> getAll s = sort_key pkey xs"
  by (simp add: getAll_def sort_key_id_if_sorted)







text \<open>
  Claim C4. A record that fails to insert stops the restore. In the first document the
  second company repeats the name of the first: the unique index fails the request, the
  handler logs and resolves, but the error event aborts the transaction, so the store
  clears and the inserts are undone, the next use of the transaction throws, and
  \<^verbatim>\<open>importDB\<close> rejects with all four stores as they were before. In the second document
  the second profile has \<^verbatim>\<open>id: true\<close>: \<^verbatim>\<open>add\<close> throws \<^verbatim>\<open>DataError\<close>, \<^verbatim>\<open>importDB\<close>
  rejects at that record with the companies store already emptied, the third profile is
  never inserted and the people and jobs stores are never cleared.
\<close>

theorem importDB_failed_insert_stops_restore:
  "fst (importDB twin_doc acme_db) = Inl InvalidStateError
   \<and> snd (importDB twin_doc acme_db) Companies = acme_db Companies
   \<and> snd (importDB twin_doc acme_db) Profiles = acme_db Profiles
   \<and> snd (importDB twin_doc acme_db) People = acme_db People
   \<and> snd (importDB twin_doc acme_db) Jobs = acme_db Jobs
   \<and> fst (importDB bad_id_doc acme_db) = Inl DataError
   \<and> records (snd (importDB bad_id_doc acme_db) Companies) = []
   \<and> records (snd (importDB bad_id_doc acme_db) Profiles)
       = [JObj [(''name'', JStr ''A''), (''id'', JNum 2)]]
   \<and> snd (importDB bad_id_doc acme_db) Jobs = acme_db Jobs"
  by code_simp

section \<open>The status of a job\<close>





































end
